theory Spec2Isabelle
  imports Main "HOL-Library.Word" "HOL-Library.Multiset" "HOL-Library.Signed_Division"
begin

unbundle bit_operations_syntax

section \<open>Data model\<close>

text \<open>
  The placement validity checker of the iCE40 architecture (\<^verbatim>\<open>ice40/arch_place.cc\<close>).
  Identifiers (\<^verbatim>\<open>IdString\<close>) are interned names; the ones the checker mentions are
  constructors, any other name is \<open>id_str\<close>.
\<close>

datatype IdString =
    id_ICESTORM_LC | id_SB_IO | id_SB_GB
  | id_D_IN_0 | id_D_IN_1 | id_PLLOUT_A | id_PLLOUT_B
  | id_INPUT_CLK | id_OUTPUT_CLK | id_CLOCK_ENABLE | id_GLOBAL_BUFFER_OUTPUT
  | id_str string

text \<open>
  A \<^verbatim>\<open>NetInfo *\<close> is an address or \<^verbatim>\<open>nullptr\<close>; the nets themselves live in a store,
  so that two pointers are equal exactly when they name the same net, whatever the
  flags of the nets are.
\<close>

type_synonym NetId = nat
type_synonym NetPtr = "NetId option"

record NetInfo =
  is_global :: bool
  is_reset :: bool
  is_enable :: bool

type_synonym BelId = int
type_synonym WireId = int

record Loc =
  x :: int
  y :: int
  z :: int

record BelPin =
  bel :: BelId
  pin :: IdString

record PortInfo =
  net :: NetPtr

record LcInfo =
  dffEnable :: bool
  negClk :: bool
  inputCount :: "32 word"
  clk :: NetPtr
  cen :: NetPtr
  sr :: NetPtr

record IoInfo =
  lvds :: bool
  pintype :: "32 word"

record GbInfo =
  forPadIn :: bool

record CellInfo =
  type :: IdString
  ports :: "IdString \<rightharpoonup> PortInfo"
  attrs :: "IdString \<rightharpoonup> string"
  lcInfo :: LcInfo
  ioInfo :: IoInfo
  gbInfo :: GbInfo

text \<open>
  The fabric and netlist databases are read through queries of \<^verbatim>\<open>Arch\<close> that are
  declared outside this file; they are the fields of the record below, together with
  the net store and the helper \<^verbatim>\<open>is_sb_pll40_dual\<close> of \<^verbatim>\<open>cells.h\<close>.
  \<open>getBoundBelCell\<close> is \<open>None\<close> where the source returns \<^verbatim>\<open>nullptr\<close>.
\<close>

record Arch =
  nets :: "NetId \<Rightarrow> NetInfo"
  getBelType :: "BelId \<Rightarrow> IdString"
  getBelLocation :: "BelId \<Rightarrow> Loc"
  getBelsByTile :: "int \<Rightarrow> int \<Rightarrow> BelId list"
  getBoundBelCell :: "BelId \<Rightarrow> CellInfo option"
  getBelByLocation :: "Loc \<Rightarrow> BelId"
  getBelPinWire :: "BelId \<Rightarrow> IdString \<Rightarrow> WireId"
  getWireBelPins :: "WireId \<Rightarrow> BelPin list"
  getBelPackagePin :: "BelId \<Rightarrow> string"
  getBelName :: "BelId \<Rightarrow> string"
  getDrivenGlobalNetwork :: "BelId \<Rightarrow> int"
  is_sb_pll40_dual :: "CellInfo \<Rightarrow> bool"

text \<open>
  What a call can do besides returning: \<^verbatim>\<open>NPNR_ASSERT\<close> aborts the run,
  \<^verbatim>\<open>ports.at(k)\<close> throws on a missing key, and a write past the eight entries of
  \<^verbatim>\<open>bel_cells\<close> leaves the array.
\<close>

datatype error = AssertionFailure | OutOfRange | ArrayOverflow

section \<open>The tile compatibility check\<close>

text \<open>
  \<^verbatim>\<open>cen != nullptr && !cen->is_global\<close>, the test that makes a control net of the
  first flip-flop cell cost one local track.
\<close>

definition is_local :: "Arch \<Rightarrow> NetPtr \<Rightarrow> bool" where
  "is_local ar p = (case p of None \<Rightarrow> False | Some n \<Rightarrow> \<not> is_global (nets ar n))"

text \<open>
  The loop of \<^verbatim>\<open>logicCellsCompatible\<close> over the cells still to visit, with the local
  variables \<^verbatim>\<open>dffs_exist\<close>, \<^verbatim>\<open>dffs_neg\<close>, \<^verbatim>\<open>cen\<close>, \<^verbatim>\<open>clk\<close>, \<^verbatim>\<open>sr\<close> and \<^verbatim>\<open>locals_count\<close>
  as arguments. \<^verbatim>\<open>locals_count\<close> and \<^verbatim>\<open>inputCount\<close> are 32-bit \<^verbatim>\<open>int\<close>s: the additions
  wrap around in two's complement, as they do in the compiled code, and the final
  comparison with \<open>32\<close> is signed.
\<close>

fun lc_loop ::
  "Arch \<Rightarrow> CellInfo list \<Rightarrow> bool \<Rightarrow> bool \<Rightarrow> NetPtr \<Rightarrow> NetPtr \<Rightarrow> NetPtr \<Rightarrow> 32 word
     \<Rightarrow> error + bool"
where
  "lc_loop ar [] dffs_exist dffs_neg cen_v clk_v sr_v locals_count =
     Inr (sint locals_count \<le> 32)"
| "lc_loop ar (cell # cells) dffs_exist dffs_neg cen_v clk_v sr_v locals_count =
     (if type cell \<noteq> id_ICESTORM_LC then Inl AssertionFailure
      else if dffEnable (lcInfo cell) then
        (if \<not> dffs_exist then
           lc_loop ar cells True (if negClk (lcInfo cell) then True else dffs_neg)
             (cen (lcInfo cell)) (clk (lcInfo cell)) (sr (lcInfo cell))
             (locals_count
               + (if is_local ar (cen (lcInfo cell)) then 1 else 0)
               + (if is_local ar (clk (lcInfo cell)) then 1 else 0)
               + (if is_local ar (sr (lcInfo cell)) then 1 else 0)
               + inputCount (lcInfo cell))
         else if cen_v \<noteq> cen (lcInfo cell) then Inr False
         else if clk_v \<noteq> clk (lcInfo cell) then Inr False
         else if sr_v \<noteq> sr (lcInfo cell) then Inr False
         else if dffs_neg \<noteq> negClk (lcInfo cell) then Inr False
         else lc_loop ar cells dffs_exist dffs_neg cen_v clk_v sr_v
                (locals_count + inputCount (lcInfo cell)))
      else lc_loop ar cells dffs_exist dffs_neg cen_v clk_v sr_v
             (locals_count + inputCount (lcInfo cell)))"

definition logicCellsCompatible :: "Arch \<Rightarrow> CellInfo list \<Rightarrow> error + bool" where
  "logicCellsCompatible ar cells = lc_loop ar cells False False None None None 0"

text \<open>
  Filling \<^verbatim>\<open>bel_cells\<close> from the bels of a tile: the cell bound to each bel is appended,
  except at the bels \<open>skip\<close> leaves out (\<^verbatim>\<open>bel_other != bel\<close> in \<^verbatim>\<open>isValidBelForCell\<close>).
  The array has eight entries.
\<close>

definition push_cell :: "CellInfo list \<Rightarrow> CellInfo \<Rightarrow> error + CellInfo list" where
  "push_cell bel_cells ci =
     (if length bel_cells < 8 then Inr (bel_cells @ [ci]) else Inl ArrayOverflow)"

fun gather_cells ::
  "Arch \<Rightarrow> (BelId \<Rightarrow> bool) \<Rightarrow> BelId list \<Rightarrow> CellInfo list \<Rightarrow> error + CellInfo list"
where
  "gather_cells ar skip [] bel_cells = Inr bel_cells"
| "gather_cells ar skip (bel_other # bels) bel_cells =
     (case getBoundBelCell ar bel_other of
        None \<Rightarrow> gather_cells ar skip bels bel_cells
      | Some ci_other \<Rightarrow>
          if skip bel_other then gather_cells ar skip bels bel_cells
          else (case push_cell bel_cells ci_other of
                  Inl e \<Rightarrow> Inl e
                | Inr bel_cells' \<Rightarrow> gather_cells ar skip bels bel_cells'))"

section \<open>Desirability score\<close>

text \<open>
  The counting loop of \<^verbatim>\<open>scoreBelForCell\<close>: the bels of the tile other than \<open>b\<close>
  that have a cell bound.
\<close>

fun count_others :: "Arch \<Rightarrow> BelId \<Rightarrow> BelId list \<Rightarrow> nat \<Rightarrow> nat" where
  "count_others ar b [] num_cells = num_cells"
| "count_others ar b (bel_other # bels) num_cells =
     (if getBoundBelCell ar bel_other \<noteq> None \<and> bel_other \<noteq> b
      then count_others ar b bels (num_cells + 1)
      else count_others ar b bels num_cells)"

text \<open>
  \<^verbatim>\<open>return 8 - num_cells\<close> subtracts in \<^verbatim>\<open>size_t\<close> (modulo \<open>2 ^ 64\<close>) and converts the
  result to the 32-bit \<^verbatim>\<open>int\<close> the function returns.
\<close>

definition size_t_sub :: "int \<Rightarrow> int \<Rightarrow> int" where
  "size_t_sub a c = (a - c) mod 2 ^ 64"

definition int_of_size_t :: "int \<Rightarrow> int" where
  "int_of_size_t v = (let r = v mod 2 ^ 32 in if r < 2 ^ 31 then r else r - 2 ^ 32)"

definition scoreBelForCell :: "Arch \<Rightarrow> CellInfo \<Rightarrow> BelId \<Rightarrow> error + int" where
  "scoreBelForCell ar cell b =
     (if type cell \<noteq> id_ICESTORM_LC then Inr 0
      else if getBelType ar b \<noteq> id_ICESTORM_LC then Inl AssertionFailure
      else if \<not> dffEnable (lcInfo cell) then Inr 8
      else
        (let bel_loc = getBelLocation ar b;
             num_cells = count_others ar b (getBelsByTile ar (x bel_loc) (y bel_loc)) 0
         in Inr (int_of_size_t (size_t_sub 8 (int num_cells)))))"

section \<open>Legality of one cell at one bel\<close>

definition io_pintype_need_clk_in :: "32 word \<Rightarrow> bool" where
  "io_pintype_need_clk_in pin_type = (pin_type AND 0x01 = 0x00)"

definition io_pintype_need_clk_out :: "32 word \<Rightarrow> bool" where
  "io_pintype_need_clk_out pin_type =
     (pin_type AND 0x30 = 0x30 \<or> (pin_type AND 0x3c \<noteq> 0 \<and> pin_type AND 0x0c \<noteq> 0x08))"

definition io_pintype_need_clk_en :: "32 word \<Rightarrow> bool" where
  "io_pintype_need_clk_en pin_type =
     (io_pintype_need_clk_in pin_type \<or> io_pintype_need_clk_out pin_type)"

text \<open>
  \<^verbatim>\<open>cell->ports[k].net\<close> and \<^verbatim>\<open>cell->attrs[k]\<close>: on a missing key \<^verbatim>\<open>operator[]\<close> adds a
  default entry (a port with no net, the empty string) and yields it. The entry added
  changes no later read of the same call, so only the value read is modelled.
\<close>

definition port_net :: "CellInfo \<Rightarrow> IdString \<Rightarrow> NetPtr" where
  "port_net cell k = (case ports cell k of None \<Rightarrow> None | Some p \<Rightarrow> net p)"

definition attr_str :: "CellInfo \<Rightarrow> IdString \<Rightarrow> string" where
  "attr_str cell k = (case attrs cell k of None \<Rightarrow> [] | Some s \<Rightarrow> s)"

text \<open>
  The loop over the bel pins of the \<^verbatim>\<open>D_IN_0\<close> wire. \<open>Some r\<close> is \<^verbatim>\<open>return r\<close>;
  \<open>None\<close> is leaving the loop, by \<^verbatim>\<open>break\<close> or at its end.
\<close>

fun pll_scan :: "Arch \<Rightarrow> CellInfo \<Rightarrow> BelId \<Rightarrow> BelPin list \<Rightarrow> bool option" where
  "pll_scan ar cell b [] = None"
| "pll_scan ar cell b (p # pins) =
     (if pin p = id_PLLOUT_A \<or> pin p = id_PLLOUT_B then
        (case getBoundBelCell ar (bel p) of
           None \<Rightarrow> None
         | Some pll_cell \<Rightarrow>
             if pin p = id_PLLOUT_B \<and> \<not> is_sb_pll40_dual ar pll_cell then None
             else if port_net cell id_D_IN_0 = None \<and> port_net cell id_D_IN_1 = None then None
             else if attr_str pll_cell (id_str ''BEL_PAD_INPUT'') = getBelName ar b
               then Some True
             else Some False)
      else pll_scan ar cell b pins)"

definition pll_check :: "Arch \<Rightarrow> CellInfo \<Rightarrow> BelId \<Rightarrow> bool option" where
  "pll_check ar cell b = pll_scan ar cell b (getWireBelPins ar (getBelPinWire ar b id_D_IN_0))"

text \<open>
  The loop over the six slots of \<^verbatim>\<open>use\<close> and \<^verbatim>\<open>nets\<close>: true when some slot makes
  the source return false.
\<close>

definition shared_net_conflict :: "bool list \<Rightarrow> NetPtr list \<Rightarrow> bool" where
  "shared_net_conflict use netv =
     list_ex (\<lambda>i. use ! i \<and> netv ! i \<noteq> netv ! (i XOR 1)
                 \<and> (use ! (i XOR 1) \<or> netv ! (i XOR 1) \<noteq> None)) [0..<6]"

definition io_use :: "CellInfo \<Rightarrow> CellInfo \<Rightarrow> bool list" where
  "io_use cell compCell =
     [io_pintype_need_clk_in (pintype (ioInfo cell)),
      io_pintype_need_clk_in (pintype (ioInfo compCell)),
      io_pintype_need_clk_out (pintype (ioInfo cell)),
      io_pintype_need_clk_out (pintype (ioInfo compCell)),
      io_pintype_need_clk_en (pintype (ioInfo cell)),
      io_pintype_need_clk_en (pintype (ioInfo compCell))]"

definition io_nets :: "CellInfo \<Rightarrow> CellInfo \<Rightarrow> NetPtr list" where
  "io_nets cell compCell =
     [port_net cell id_INPUT_CLK, port_net compCell id_INPUT_CLK,
      port_net cell id_OUTPUT_CLK, port_net compCell id_OUTPUT_CLK,
      port_net cell id_CLOCK_ENABLE, port_net compCell id_CLOCK_ENABLE]"

text \<open>The \<^verbatim>\<open>SB_IO\<close> branch after the pin loop: pairing, shared nets, package pin.\<close>

definition io_pairing :: "Arch \<Rightarrow> CellInfo \<Rightarrow> BelId \<Rightarrow> bool" where
  "io_pairing ar cell b =
     (let ioLoc = getBelLocation ar b;
          compLoc = ioLoc\<lparr>z := 1 - z ioLoc\<rparr>
      in if lvds (ioInfo cell) then
           (if z ioLoc \<noteq> 0 then False
            else (case getBoundBelCell ar (getBelByLocation ar compLoc) of
                    Some compCell \<Rightarrow> False
                  | None \<Rightarrow> getBelPackagePin ar b \<noteq> []))
         else
           (case getBoundBelCell ar (getBelByLocation ar compLoc) of
              None \<Rightarrow> getBelPackagePin ar b \<noteq> []
            | Some compCell \<Rightarrow>
                if lvds (ioInfo compCell) then False
                else if shared_net_conflict (io_use cell compCell) (io_nets cell compCell)
                  then False
                else getBelPackagePin ar b \<noteq> []))"

text \<open>The \<^verbatim>\<open>SB_GB\<close> branch.\<close>

definition gb_check :: "Arch \<Rightarrow> CellInfo \<Rightarrow> BelId \<Rightarrow> error + bool" where
  "gb_check ar cell b =
     (if forPadIn (gbInfo cell) then Inr True
      else (case ports cell id_GLOBAL_BUFFER_OUTPUT of
              None \<Rightarrow> Inl OutOfRange
            | Some port \<Rightarrow>
                (case net port of
                   None \<Rightarrow> Inl AssertionFailure
                 | Some n \<Rightarrow>
                     (let glb_id = getDrivenGlobalNetwork ar b
                      in if is_reset (nets ar n) \<and> is_enable (nets ar n) then Inr False
                         else if is_reset (nets ar n) then Inr (glb_id smod 2 = 0)
                         else if is_enable (nets ar n) then Inr (glb_id smod 2 = 1)
                         else Inr True))))"

definition isValidBelForCell :: "Arch \<Rightarrow> CellInfo \<Rightarrow> BelId \<Rightarrow> error + bool" where
  "isValidBelForCell ar cell b =
     (if type cell = id_ICESTORM_LC then
        (if getBelType ar b \<noteq> id_ICESTORM_LC then Inl AssertionFailure
         else
           (let bel_loc = getBelLocation ar b
            in case gather_cells ar (\<lambda>bel_other. bel_other = b)
                      (getBelsByTile ar (x bel_loc) (y bel_loc)) [] of
                 Inl e \<Rightarrow> Inl e
               | Inr bel_cells \<Rightarrow>
                   (case push_cell bel_cells cell of
                      Inl e \<Rightarrow> Inl e
                    | Inr bel_cells' \<Rightarrow> logicCellsCompatible ar bel_cells')))
      else if type cell = id_SB_IO then
        (case pll_check ar cell b of
           Some r \<Rightarrow> Inr r
         | None \<Rightarrow> Inr (io_pairing ar cell b))
      else if type cell = id_SB_GB then gb_check ar cell b
      else Inr True)"

section \<open>Legality of a bel as it is bound\<close>

definition isBelLocationValid :: "Arch \<Rightarrow> BelId \<Rightarrow> error + bool" where
  "isBelLocationValid ar b =
     (if getBelType ar b = id_ICESTORM_LC then
        (let bel_loc = getBelLocation ar b
         in case gather_cells ar (\<lambda>bel_other. False)
                   (getBelsByTile ar (x bel_loc) (y bel_loc)) [] of
              Inl e \<Rightarrow> Inl e
            | Inr bel_cells \<Rightarrow> logicCellsCompatible ar bel_cells)
      else (case getBoundBelCell ar b of
              None \<Rightarrow> Inr True
            | Some ci \<Rightarrow> isValidBelForCell ar ci b))"

section \<open>Closed forms of the checks\<close>

text \<open>
  What the theorems below compare the loops with. The control signals of a cell are
  its three control nets, by identity, and the clock polarity.
\<close>

definition ctrl :: "CellInfo \<Rightarrow> NetPtr \<times> NetPtr \<times> NetPtr \<times> bool" where
  "ctrl c = (cen (lcInfo c), clk (lcInfo c), sr (lcInfo c), negClk (lcInfo c))"

definition local_slots :: "Arch \<Rightarrow> CellInfo \<Rightarrow> int" where
  "local_slots ar c =
     (if is_local ar (cen (lcInfo c)) then 1 else 0)
   + (if is_local ar (clk (lcInfo c)) then 1 else 0)
   + (if is_local ar (sr (lcInfo c)) then 1 else 0)"

definition input_sum :: "CellInfo list \<Rightarrow> int" where
  "input_sum cells = sum_list (map (\<lambda>c. sint (inputCount (lcInfo c))) cells)"

definition dff_cells :: "CellInfo list \<Rightarrow> CellInfo list" where
  "dff_cells cells = filter (\<lambda>c. dffEnable (lcInfo c)) cells"

definition ctrl_mismatch :: "CellInfo list \<Rightarrow> bool" where
  "ctrl_mismatch cells =
     (case dff_cells cells of
        [] \<Rightarrow> False
      | f # fs \<Rightarrow> list_ex (\<lambda>c. ctrl c \<noteq> ctrl f) fs)"

definition budget :: "Arch \<Rightarrow> CellInfo list \<Rightarrow> int" where
  "budget ar cells =
     input_sum cells + (case dff_cells cells of [] \<Rightarrow> 0 | f # fs \<Rightarrow> local_slots ar f)"

text \<open>
  The value of \<^verbatim>\<open>locals_count\<close> when the loop ends: the budget in 32-bit two's
  complement. It is the budget itself when that fits a 32-bit \<^verbatim>\<open>int\<close>.
\<close>

definition locals_total :: "Arch \<Rightarrow> CellInfo list \<Rightarrow> int" where
  "locals_total ar cells = sint (word_of_int (budget ar cells) :: 32 word)"


definition all_logic :: "CellInfo list \<Rightarrow> bool" where
  "all_logic cells = list_all (\<lambda>c. type c = id_ICESTORM_LC) cells"





text \<open>The bels of the tile of \<open>b\<close>, the cells bound there, and the occupied siblings.\<close>

definition tile_bels :: "Arch \<Rightarrow> BelId \<Rightarrow> BelId list" where
  "tile_bels ar b = getBelsByTile ar (x (getBelLocation ar b)) (y (getBelLocation ar b))"

definition tile_cells :: "Arch \<Rightarrow> BelId \<Rightarrow> CellInfo list" where
  "tile_cells ar b = List.map_filter (getBoundBelCell ar) (tile_bels ar b)"

definition occupied_others :: "Arch \<Rightarrow> BelId \<Rightarrow> nat" where
  "occupied_others ar b =
     length (filter (\<lambda>bel_other. getBoundBelCell ar bel_other \<noteq> None \<and> bel_other \<noteq> b)
               (tile_bels ar b))"

text \<open>The site paired with \<open>b\<close>: same tile, sub-index \<open>1 - z\<close>.\<close>

definition comp_bel :: "Arch \<Rightarrow> BelId \<Rightarrow> BelId" where
  "comp_bel ar b = getBelByLocation ar ((getBelLocation ar b)\<lparr>z := 1 - z (getBelLocation ar b)\<rparr>)"

text \<open>
  The three need-classes of a pin type, bit by bit, as the specification states them;
  bits 2 to 3 read \<open>10\<close> when bit 3 is set and bit 2 is not.
\<close>

definition needs_input_clock :: "32 word \<Rightarrow> bool" where
  "needs_input_clock p = (\<not> bit p 0)"

definition needs_output_clock :: "32 word \<Rightarrow> bool" where
  "needs_output_clock p =
     ((bit p 4 \<and> bit p 5)
      \<or> ((bit p 2 \<or> bit p 3 \<or> bit p 4 \<or> bit p 5) \<and> \<not> (bit p 3 \<and> \<not> bit p 2)))"

definition needs_clock_enable :: "32 word \<Rightarrow> bool" where
  "needs_clock_enable p = (needs_input_clock p \<or> needs_output_clock p)"

text \<open>
  A conflict on one net class, seen from the side that needs it: the two slots hold
  different nets, and the other side needs the class too or has a net there.
\<close>

definition class_conflict :: "bool \<Rightarrow> NetPtr \<Rightarrow> bool \<Rightarrow> NetPtr \<Rightarrow> bool" where
  "class_conflict need_a net_a need_b net_b =
     (need_a \<and> net_a \<noteq> net_b \<and> (need_b \<or> net_b \<noteq> None))"

definition side_conflict :: "CellInfo \<Rightarrow> CellInfo \<Rightarrow> bool" where
  "side_conflict c d =
     (class_conflict (needs_input_clock (pintype (ioInfo c))) (port_net c id_INPUT_CLK)
        (needs_input_clock (pintype (ioInfo d))) (port_net d id_INPUT_CLK)
      \<or> class_conflict (needs_output_clock (pintype (ioInfo c))) (port_net c id_OUTPUT_CLK)
        (needs_output_clock (pintype (ioInfo d))) (port_net d id_OUTPUT_CLK)
      \<or> class_conflict (needs_clock_enable (pintype (ioInfo c))) (port_net c id_CLOCK_ENABLE)
        (needs_clock_enable (pintype (ioInfo d))) (port_net d id_CLOCK_ENABLE))"

definition pair_conflict :: "CellInfo \<Rightarrow> CellInfo \<Rightarrow> bool" where
  "pair_conflict c d = (side_conflict c d \<or> side_conflict d c)"

section \<open>Example configurations\<close>

text \<open>
  A small fabric for the concrete instances below: one tile at \<open>(0, 0)\<close> whose bels
  \<open>0 .. 7\<close> sit at sub-index \<open>z = b\<close>, so that bels \<open>0\<close> and \<open>1\<close> are a site pair,
  and bel \<open>b\<close> drives global network \<open>b\<close>. Net \<open>3\<close> is global, net \<open>4\<close> a reset,
  net \<open>5\<close> an enable, net \<open>6\<close> both; every other net is a plain local net.
\<close>

definition nets_ex :: "NetId \<Rightarrow> NetInfo" where
  "nets_ex n = \<lparr>is_global = (n = 3), is_reset = (n = 4 \<or> n = 6), is_enable = (n = 5 \<or> n = 6)\<rparr>"

definition fabric ::
  "(BelId \<Rightarrow> IdString) \<Rightarrow> (BelId \<Rightarrow> CellInfo option) \<Rightarrow> BelPin list \<Rightarrow> string \<Rightarrow> Arch"
where
  "fabric ty bound pins pkg =
     \<lparr>nets = nets_ex,
      getBelType = ty,
      getBelLocation = (\<lambda>b. \<lparr>x = 0, y = 0, z = b\<rparr>),
      getBelsByTile = (\<lambda>tx tyc. [0, 1, 2, 3, 4, 5, 6, 7]),
      getBoundBelCell = bound,
      getBelByLocation = (\<lambda>l. z l),
      getBelPinWire = (\<lambda>b p. b),
      getWireBelPins = (\<lambda>w. pins),
      getBelPackagePin = (\<lambda>b. pkg),
      getBelName = (\<lambda>b. if b = 0 then ''io0'' else ''io1''),
      getDrivenGlobalNetwork = (\<lambda>b. b),
      is_sb_pll40_dual = (\<lambda>c. False)\<rparr>"

definition no_lc :: LcInfo where
  "no_lc = \<lparr>dffEnable = False, negClk = False, inputCount = 0,
            clk = None, cen = None, sr = None\<rparr>"

definition lc_cell :: "bool \<Rightarrow> 32 word \<Rightarrow> NetPtr \<Rightarrow> NetPtr \<Rightarrow> NetPtr \<Rightarrow> CellInfo" where
  "lc_cell dff n cen_n clk_n sr_n =
     \<lparr>type = id_ICESTORM_LC, ports = Map.empty, attrs = Map.empty,
      lcInfo = \<lparr>dffEnable = dff, negClk = False, inputCount = n,
                 clk = clk_n, cen = cen_n, sr = sr_n\<rparr>,
      ioInfo = \<lparr>lvds = False, pintype = 0\<rparr>,
      gbInfo = \<lparr>forPadIn = False\<rparr>\<rparr>"

definition io_cell :: "bool \<Rightarrow> 32 word \<Rightarrow> (IdString \<rightharpoonup> PortInfo) \<Rightarrow> CellInfo" where
  "io_cell lv pt ps =
     \<lparr>type = id_SB_IO, ports = ps, attrs = Map.empty, lcInfo = no_lc,
      ioInfo = \<lparr>lvds = lv, pintype = pt\<rparr>,
      gbInfo = \<lparr>forPadIn = False\<rparr>\<rparr>"

definition gb_cell :: "bool \<Rightarrow> NetPtr \<Rightarrow> CellInfo" where
  "gb_cell pad n =
     \<lparr>type = id_SB_GB, ports = [id_GLOBAL_BUFFER_OUTPUT \<mapsto> \<lparr>net = n\<rparr>], attrs = Map.empty,
      lcInfo = no_lc, ioInfo = \<lparr>lvds = False, pintype = 0\<rparr>,
      gbInfo = \<lparr>forPadIn = pad\<rparr>\<rparr>"

definition pll_cell :: "string \<Rightarrow> CellInfo" where
  "pll_cell pad_bel =
     \<lparr>type = id_str ''SB_PLL40_PAD'', ports = Map.empty,
      attrs = [id_str ''BEL_PAD_INPUT'' \<mapsto> pad_bel],
      lcInfo = no_lc, ioInfo = \<lparr>lvds = False, pintype = 0\<rparr>,
      gbInfo = \<lparr>forPadIn = False\<rparr>\<rparr>"

text \<open>
  A logic tile with bel \<open>0\<close> free and two flip-flop cells on different clocks at
  bels \<open>1\<close> and \<open>2\<close>.
\<close>

definition clash_tile :: Arch where
  "clash_tile =
     fabric (\<lambda>b. id_ICESTORM_LC)
       (\<lambda>b. if b = 1 then Some (lc_cell True 1 None (Some 1) None)
            else if b = 2 then Some (lc_cell True 1 None (Some 2) None)
            else None) [] []"

text \<open>Empty tiles: logic sites, IO sites with package pins, global buffers.\<close>

definition logic_tile :: Arch where
  "logic_tile = fabric (\<lambda>b. id_ICESTORM_LC) (\<lambda>b. None) [] []"

definition io_tile :: Arch where
  "io_tile = fabric (\<lambda>b. id_SB_IO) (\<lambda>b. None) [] ''A1''"

definition gb_tile :: Arch where
  "gb_tile = fabric (\<lambda>b. id_SB_GB) (\<lambda>b. None) [] []"



text \<open>
  Registered-output IO cells (pin type \<open>0x31\<close>): \<open>io_a\<close> and \<open>io_c\<close> with the output
  clock on net \<open>1\<close>, \<open>io_b\<close> on net \<open>2\<close>; \<open>io_a\<close> also reads its input. \<open>io_lvds\<close>
  is a differential input.
\<close>

definition io_a :: CellInfo where
  "io_a = io_cell False 0x31
     [id_D_IN_0 \<mapsto> \<lparr>net = Some 7\<rparr>, id_OUTPUT_CLK \<mapsto> \<lparr>net = Some 1\<rparr>]"

definition io_b :: CellInfo where
  "io_b = io_cell False 0x31 [id_OUTPUT_CLK \<mapsto> \<lparr>net = Some 2\<rparr>]"

definition io_c :: CellInfo where
  "io_c = io_cell False 0x31 [id_OUTPUT_CLK \<mapsto> \<lparr>net = Some 1\<rparr>]"

definition io_lvds :: CellInfo where
  "io_lvds = io_cell True 0x01 [id_D_IN_0 \<mapsto> \<lparr>net = Some 7\<rparr>]"

text \<open>
  IO tiles with \<open>io_a\<close> and \<open>io_b\<close> (or \<open>io_c\<close>) on the site pair: plain, or where the
  \<open>D_IN_0\<close> wire is shared with the output of a PLL at bel \<open>9\<close> whose pad input is
  the bel named by the argument.
\<close>

definition io_pair_tile :: Arch where
  "io_pair_tile =
     fabric (\<lambda>b. id_SB_IO)
       (\<lambda>b. if b = 0 then Some io_a else if b = 1 then Some io_b else None) [] ''A1''"

definition io_same_tile :: Arch where
  "io_same_tile =
     fabric (\<lambda>b. id_SB_IO)
       (\<lambda>b. if b = 0 then Some io_a else if b = 1 then Some io_c else None) [] ''A1''"

definition io_pll_tile :: "string \<Rightarrow> Arch" where
  "io_pll_tile pad_bel =
     fabric (\<lambda>b. id_SB_IO)
       (\<lambda>b. if b = 0 then Some io_a else if b = 1 then Some io_b
            else if b = 9 then Some (pll_cell pad_bel) else None)
       [\<lparr>bel = 9, pin = id_PLLOUT_A\<rparr>] ''A1''"

text \<open>An IO tile with no cell bound whose bels have no package pin.\<close>

definition unbonded_tile :: Arch where
  "unbonded_tile = fabric (\<lambda>b. id_SB_IO) (\<lambda>b. None) [] []"

section \<open>Properties of the tile compatibility check\<close>

lemma local_slots_word:
  "(word_of_int (local_slots ar c) :: 32 word) =
     (if is_local ar (cen (lcInfo c)) then 1 else 0)
   + (if is_local ar (clk (lcInfo c)) then 1 else 0)
   + (if is_local ar (sr (lcInfo c)) then 1 else 0)"
  by (simp add: local_slots_def)



lemma lc_loop_append_recorded:
  "all_logic pre \<Longrightarrow>
   lc_loop ar (pre @ rest) True ng cn ck s n =
     (if list_all (\<lambda>c. ctrl c = (cn, ck, s, ng)) (dff_cells pre)
      then lc_loop ar rest True ng cn ck s (n + word_of_int (input_sum pre))
      else Inr False)"
proof (induction pre arbitrary: n)
  case Nil
  show ?case by (simp add: dff_cells_def input_sum_def)
next
  case (Cons c pre)
  then have ih: "\<And>m. lc_loop ar (pre @ rest) True ng cn ck s m =
     (if list_all (\<lambda>c. ctrl c = (cn, ck, s, ng)) (dff_cells pre)
      then lc_loop ar rest True ng cn ck s (m + word_of_int (input_sum pre))
      else Inr False)"
    and ty: "type c = id_ICESTORM_LC"
    by (simp_all add: all_logic_def)
  show ?case
  proof (cases "dffEnable (lcInfo c)")
    case False
    then show ?thesis
      using ty by (simp add: ih dff_cells_def input_sum_def add.assoc)
  next
    case True
    show ?thesis
    proof (cases "ctrl c = (cn, ck, s, ng)")
      case same: True
      then have "cen (lcInfo c) = cn" "clk (lcInfo c) = ck" "sr (lcInfo c) = s"
        "negClk (lcInfo c) = ng"
        by (simp_all add: ctrl_def)
      then show ?thesis
        using ty True same by (simp add: ih dff_cells_def input_sum_def add.assoc)
    next
      case differ: False
      then have "lc_loop ar ((c # pre) @ rest) True ng cn ck s n = Inr False"
        using ty True by (auto simp: ctrl_def)
      then show ?thesis
        using True differ by (simp add: dff_cells_def)
    qed
  qed
qed

lemma lc_loop_append_fresh:
  "all_logic pre \<Longrightarrow>
   lc_loop ar (pre @ rest) False False cn ck s n =
     (if ctrl_mismatch pre then Inr False
      else (case dff_cells pre of
              [] \<Rightarrow> lc_loop ar rest False False cn ck s (n + word_of_int (budget ar pre))
            | f # fs \<Rightarrow>
                lc_loop ar rest True (negClk (lcInfo f)) (cen (lcInfo f)) (clk (lcInfo f))
                  (sr (lcInfo f)) (n + word_of_int (budget ar pre))))"
proof (induction pre arbitrary: n)
  case Nil
  show ?case by (simp add: ctrl_mismatch_def budget_def dff_cells_def input_sum_def)
next
  case (Cons c pre)
  then have ih: "\<And>m. lc_loop ar (pre @ rest) False False cn ck s m =
     (if ctrl_mismatch pre then Inr False
      else (case dff_cells pre of
              [] \<Rightarrow> lc_loop ar rest False False cn ck s (m + word_of_int (budget ar pre))
            | f # fs \<Rightarrow>
                lc_loop ar rest True (negClk (lcInfo f)) (cen (lcInfo f)) (clk (lcInfo f))
                  (sr (lcInfo f)) (m + word_of_int (budget ar pre))))"
    and ty: "type c = id_ICESTORM_LC" and rest: "all_logic pre"
    by (simp_all add: all_logic_def)
  show ?case
  proof (cases "dffEnable (lcInfo c)")
    case False
    then have d: "dff_cells (c # pre) = dff_cells pre"
      and b: "budget ar (c # pre) = sint (inputCount (lcInfo c)) + budget ar pre"
      by (simp_all add: budget_def dff_cells_def input_sum_def)
    have m: "ctrl_mismatch (c # pre) = ctrl_mismatch pre"
      by (simp add: ctrl_mismatch_def d)
    show ?thesis
      using ty False by (simp add: ih d b m add.assoc split: list.splits)
  next
    case True
    have neg: "(if negClk (lcInfo c) then True else False) = negClk (lcInfo c)" by simp
    have d: "dff_cells (c # pre) = c # dff_cells pre"
      using True by (simp add: dff_cells_def)
    have m: "ctrl_mismatch (c # pre) = (\<not> list_all (\<lambda>d. ctrl d = ctrl c) (dff_cells pre))"
      by (simp add: ctrl_mismatch_def d list_ex_iff list_all_iff)
    have b: "budget ar (c # pre) = sint (inputCount (lcInfo c)) + input_sum pre + local_slots ar c"
      by (simp add: budget_def d input_sum_def)
    have c: "(cen (lcInfo c), clk (lcInfo c), sr (lcInfo c), negClk (lcInfo c)) = ctrl c"
      by (simp add: ctrl_def)
    have "lc_loop ar ((c # pre) @ rest) False False cn ck s n =
          lc_loop ar (pre @ rest) True (negClk (lcInfo c)) (cen (lcInfo c)) (clk (lcInfo c))
            (sr (lcInfo c)) (n + word_of_int (local_slots ar c) + inputCount (lcInfo c))"
      using ty True by (simp add: neg local_slots_word add.assoc)
    also have "\<dots> = (if list_all (\<lambda>d. ctrl d = ctrl c) (dff_cells pre)
        then lc_loop ar rest True (negClk (lcInfo c)) (cen (lcInfo c)) (clk (lcInfo c))
               (sr (lcInfo c))
               (n + word_of_int (local_slots ar c) + inputCount (lcInfo c)
                + word_of_int (input_sum pre))
        else Inr False)"
      by (simp add: lc_loop_append_recorded [OF rest] c)
    also have "n + word_of_int (local_slots ar c) + inputCount (lcInfo c)
                + word_of_int (input_sum pre) = n + word_of_int (budget ar (c # pre))"
      by (simp add: b)
    finally show ?thesis
      by (simp add: m d)
  qed
qed

lemma logicCellsCompatible_eq:
  "all_logic cells \<Longrightarrow>
   logicCellsCompatible ar cells =
     Inr (\<not> ctrl_mismatch cells \<and> locals_total ar cells \<le> 32)"
proof -
  assume "all_logic cells"
  then have "lc_loop ar (cells @ []) False False None None None 0 =
     (if ctrl_mismatch cells then Inr False
      else (case dff_cells cells of
              [] \<Rightarrow> lc_loop ar [] False False None None None (0 + word_of_int (budget ar cells))
            | f # fs \<Rightarrow>
                lc_loop ar [] True (negClk (lcInfo f)) (cen (lcInfo f)) (clk (lcInfo f))
                  (sr (lcInfo f)) (0 + word_of_int (budget ar cells))))"
    by (rule lc_loop_append_fresh)
  then show ?thesis
    by (cases "dff_cells cells") (simp_all add: logicCellsCompatible_def locals_total_def)
qed

lemma logicCellsCompatible_assert:
  "all_logic pre \<Longrightarrow> type c \<noteq> id_ICESTORM_LC \<Longrightarrow>
   logicCellsCompatible ar (pre @ c # post) =
     (if ctrl_mismatch pre then Inr False else Inl AssertionFailure)"
proof -
  assume "all_logic pre" and ty: "type c \<noteq> id_ICESTORM_LC"
  then have "lc_loop ar (pre @ c # post) False False None None None 0 =
     (if ctrl_mismatch pre then Inr False else Inl AssertionFailure)"
    by (cases "dff_cells pre") (simp_all add: lc_loop_append_fresh)
  then show ?thesis
    by (simp add: logicCellsCompatible_def)
qed

lemma ctrl_mismatch_iff:
  "ctrl_mismatch cells \<longleftrightarrow>
     (\<exists>a\<in>set (dff_cells cells). \<exists>b\<in>set (dff_cells cells). ctrl a \<noteq> ctrl b)"
proof (cases "dff_cells cells")
  case Nil
  then show ?thesis by (simp add: ctrl_mismatch_def)
next
  case (Cons f fs)
  have "(\<exists>c\<in>set fs. ctrl c \<noteq> ctrl f) \<longleftrightarrow>
        (\<exists>a\<in>set (f # fs). \<exists>b\<in>set (f # fs). ctrl a \<noteq> ctrl b)"
  proof
    assume "\<exists>c\<in>set fs. ctrl c \<noteq> ctrl f"
    then obtain c where "c \<in> set fs" "ctrl c \<noteq> ctrl f" by blast
    then show "\<exists>a\<in>set (f # fs). \<exists>b\<in>set (f # fs). ctrl a \<noteq> ctrl b"
      by (intro bexI [of _ c] bexI [of _ f]) simp_all
  next
    assume "\<exists>a\<in>set (f # fs). \<exists>b\<in>set (f # fs). ctrl a \<noteq> ctrl b"
    then obtain a b where ab: "a \<in> set (f # fs)" "b \<in> set (f # fs)" "ctrl a \<noteq> ctrl b"
      by blast
    show "\<exists>c\<in>set fs. ctrl c \<noteq> ctrl f"
    proof (cases "ctrl a = ctrl f")
      case True
      then have "ctrl b \<noteq> ctrl f" "b \<noteq> f" using ab by auto
      then show ?thesis using ab by auto
    next
      case False
      then have "a \<noteq> f" by auto
      then show ?thesis using ab False by auto
    qed
  qed
  then show ?thesis
    by (simp add: ctrl_mismatch_def Cons list_ex_iff)
qed

lemma local_slots_ctrl: "ctrl a = ctrl b \<Longrightarrow> local_slots ar a = local_slots ar b"
proof -
  assume "ctrl a = ctrl b"
  then have "cen (lcInfo a) = cen (lcInfo b)" "clk (lcInfo a) = clk (lcInfo b)"
    "sr (lcInfo a) = sr (lcInfo b)"
    by (simp_all add: ctrl_def)
  then show ?thesis
    by (simp add: local_slots_def)
qed

lemma budget_any_dff:
  "\<not> ctrl_mismatch cells \<Longrightarrow> d \<in> set (dff_cells cells) \<Longrightarrow>
   budget ar cells = input_sum cells + local_slots ar d"
proof -
  assume nm: "\<not> ctrl_mismatch cells" and d: "d \<in> set (dff_cells cells)"
  then obtain f fs where f: "dff_cells cells = f # fs"
    by (cases "dff_cells cells") auto
  then have "f \<in> set (dff_cells cells)" by simp
  then have "ctrl f = ctrl d"
    using nm d unfolding ctrl_mismatch_iff by blast
  then have "local_slots ar f = local_slots ar d"
    by (rule local_slots_ctrl)
  then show ?thesis
    by (simp add: budget_def f)
qed

lemma input_sum_mset: "mset xs = mset ys \<Longrightarrow> input_sum xs = input_sum ys"
proof -
  assume "mset xs = mset ys"
  then have "mset (map (\<lambda>c. sint (inputCount (lcInfo c))) xs)
             = mset (map (\<lambda>c. sint (inputCount (lcInfo c))) ys)"
    by simp
  then have "sum_mset (mset (map (\<lambda>c. sint (inputCount (lcInfo c))) xs)) =
             sum_mset (mset (map (\<lambda>c. sint (inputCount (lcInfo c))) ys))"
    by (rule arg_cong)
  then show ?thesis
    by (simp only: input_sum_def sum_mset_sum_list)
qed

lemma dff_cells_set: "mset xs = mset ys \<Longrightarrow> set (dff_cells xs) = set (dff_cells ys)"
proof -
  assume "mset xs = mset ys"
  then have "set xs = set ys" by (rule mset_eq_setD)
  then show ?thesis by (simp add: dff_cells_def)
qed

lemma budget_mset:
  assumes p: "mset xs = mset ys" and nm: "\<not> ctrl_mismatch xs"
  shows "budget ar xs = budget ar ys"
proof -
  have st: "set (dff_cells xs) = set (dff_cells ys)"
    using p by (rule dff_cells_set)
  have isum: "input_sum xs = input_sum ys"
    using p by (rule input_sum_mset)
  have nm': "\<not> ctrl_mismatch ys"
    using nm unfolding ctrl_mismatch_iff st .
  show ?thesis
  proof (cases "dff_cells xs")
    case Nil
    then have "set (dff_cells ys) = {}"
      using st by simp
    then have "dff_cells ys = []"
      by simp
    then show ?thesis
      using Nil by (simp add: budget_def isum)
  next
    case (Cons f fs)
    then have fx: "f \<in> set (dff_cells xs)" by simp
    then have fy: "f \<in> set (dff_cells ys)"
      unfolding st .
    have "budget ar xs = input_sum xs + local_slots ar f"
      using nm fx by (rule budget_any_dff)
    moreover have "budget ar ys = input_sum ys + local_slots ar f"
      using nm' fy by (rule budget_any_dff)
    ultimately show ?thesis
      by (simp add: isum)
  qed
qed






section \<open>Gathering, counting and the returned score\<close>

lemma gather_cells_eq:
  "length acc \<le> 8 \<Longrightarrow> gather_cells ar skip bels acc =
     (if length (acc @ List.map_filter (\<lambda>bo. if skip bo then None else getBoundBelCell ar bo) bels) \<le> 8
      then Inr (acc @ List.map_filter (\<lambda>bo. if skip bo then None else getBoundBelCell ar bo) bels)
      else Inl ArrayOverflow)"
proof (induction bels arbitrary: acc)
  case Nil
  then show ?case by simp
next
  case (Cons bo bels)
  note ih = Cons.IH and len = Cons.prems
  show ?case
  proof (cases "getBoundBelCell ar bo")
    case None
    then show ?thesis by (simp add: ih [OF len])
  next
    case (Some ci)
    show ?thesis
    proof (cases "skip bo")
      case True
      then show ?thesis using Some by (simp add: ih [OF len])
    next
      case False
      show ?thesis
      proof (cases "length acc < 8")
        case short: True
        then have "length (acc @ [ci]) \<le> 8" by simp
        then show ?thesis
          using Some False short by (simp add: ih push_cell_def)
      next
        case full: False
        then show ?thesis
          using Some False by (simp add: push_cell_def)
      qed
    qed
  qed
qed

lemma count_others_eq:
  "count_others ar b bels n =
     n + length (filter (\<lambda>bel_other. getBoundBelCell ar bel_other \<noteq> None \<and> bel_other \<noteq> b) bels)"
  by (induction bels arbitrary: n) simp_all

lemma int_of_size_t_sub:
  "0 \<le> n \<Longrightarrow> n < 2 ^ 31 \<Longrightarrow> int_of_size_t (size_t_sub 8 n) = 8 - n"
proof -
  assume n: "0 \<le> n" "n < 2 ^ 31"
  show ?thesis
  proof (cases "n \<le> 8")
    case True
    then have "size_t_sub 8 n = 8 - n"
      using n by (simp add: size_t_sub_def)
    then show ?thesis
      using True n by (simp add: int_of_size_t_def)
  next
    case False
    have "(8 - n + 2 ^ 64) mod 2 ^ 64 = 8 - n + 2 ^ 64"
      using False n by (intro mod_pos_pos_trivial) simp_all
    then have "(8 - n) mod 2 ^ 64 = 8 - n + 2 ^ 64"
      by (simp only: mod_add_self2)
    then have s: "size_t_sub 8 n = 8 - n + 2 ^ 64"
      by (simp add: size_t_sub_def)
    have "(8 - n + 2 ^ 32 * 2 ^ 32) mod 2 ^ 32 = (8 - n) mod (2 ^ 32 :: int)"
      by (rule mod_mult_self1)
    then have "(8 - n + 2 ^ 64) mod 2 ^ 32 = (8 - n) mod 2 ^ 32"
      by simp
    also have "\<dots> = (8 - n + 2 ^ 32) mod 2 ^ 32"
      by (simp only: mod_add_self2)
    also have "\<dots> = 8 - n + 2 ^ 32"
      using False n by (intro mod_pos_pos_trivial) simp_all
    finally show ?thesis
      using False n by (simp add: int_of_size_t_def s)
  qed
qed

section \<open>Pin types and shared nets of a site pair\<close>

lemma bit_0x30: "bit (0x30 :: 32 word) n \<longleftrightarrow> n = 4 \<or> n = 5"
proof -
  have "(0x30 :: 32 word) = push_bit 4 1 OR push_bit 5 1" by simp
  then show ?thesis
    by (simp only: bit_or_iff bit_push_bit_iff bit_1_iff) (auto simp: possible_bit_word)
qed

lemma bit_0x3c: "bit (0x3c :: 32 word) n \<longleftrightarrow> n = 2 \<or> n = 3 \<or> n = 4 \<or> n = 5"
proof -
  have "(0x3c :: 32 word) = push_bit 2 1 OR push_bit 3 1 OR push_bit 4 1 OR push_bit 5 1" by simp
  then show ?thesis
    by (simp only: bit_or_iff bit_push_bit_iff bit_1_iff) (auto simp: possible_bit_word)
qed

lemma bit_0x0c: "bit (0x0c :: 32 word) n \<longleftrightarrow> n = 2 \<or> n = 3"
proof -
  have "(0x0c :: 32 word) = push_bit 2 1 OR push_bit 3 1" by simp
  then show ?thesis
    by (simp only: bit_or_iff bit_push_bit_iff bit_1_iff) (auto simp: possible_bit_word)
qed

lemma bit_0x08: "bit (0x08 :: 32 word) n \<longleftrightarrow> n = 3"
proof -
  have "(0x08 :: 32 word) = push_bit 3 1" by simp
  then show ?thesis
    by (simp only: bit_or_iff bit_push_bit_iff bit_1_iff) (auto simp: possible_bit_word)
qed

lemma word_eq_bits: "(a = b) = (\<forall>n. bit a n = bit b n)" for a b :: "32 word"
proof
  assume "a = b"
  then show "\<forall>n. bit a n = bit b n" by simp
next
  assume "\<forall>n. bit a n = bit b n"
  then show "a = b" by (intro bit_eqI) simp
qed

lemma mask_0x30: "(p AND 0x30 = 0x30) = (bit p 4 \<and> bit p 5)" for p :: "32 word"
proof -
  have "(p AND 0x30 = 0x30) = (\<forall>n. bit (p AND 0x30) n = bit (0x30 :: 32 word) n)"
    by (rule word_eq_bits)
  also have "\<dots> = (\<forall>n. (bit p n \<and> (n = 4 \<or> n = 5)) = (n = 4 \<or> n = 5))"
    by (simp only: bit_and_iff bit_0x30)
  also have "\<dots> = (bit p 4 \<and> bit p 5)"
    by blast
  finally show ?thesis .
qed

lemma mask_0x3c:
  "(p AND 0x3c = 0) = (\<not> bit p 2 \<and> \<not> bit p 3 \<and> \<not> bit p 4 \<and> \<not> bit p 5)" for p :: "32 word"
proof -
  have "(p AND 0x3c = 0) = (\<forall>n. bit (p AND 0x3c) n = bit (0 :: 32 word) n)"
    by (rule word_eq_bits)
  also have "\<dots> = (\<forall>n. \<not> (bit p n \<and> (n = 2 \<or> n = 3 \<or> n = 4 \<or> n = 5)))"
    by (simp only: bit_and_iff bit_0x3c bit_0_eq bot_apply bot_bool_def simp_thms)
  also have "\<dots> = (\<not> bit p 2 \<and> \<not> bit p 3 \<and> \<not> bit p 4 \<and> \<not> bit p 5)"
    by blast
  finally show ?thesis .
qed

lemma mask_0x0c: "(p AND 0x0c = 0x08) = (bit p 3 \<and> \<not> bit p 2)" for p :: "32 word"
proof -
  have "(p AND 0x0c = 0x08) = (\<forall>n. bit (p AND 0x0c) n = bit (0x08 :: 32 word) n)"
    by (rule word_eq_bits)
  also have "\<dots> = (\<forall>n. (bit p n \<and> (n = 2 \<or> n = 3)) = (n = 3))"
    by (simp only: bit_and_iff bit_0x0c bit_0x08)
  also have "\<dots> = (bit p 3 \<and> \<not> bit p 2)"
    by (metis numeral_eq_iff semiring_norm(89))
  finally show ?thesis .
qed

lemma need_clk_in_bits: "io_pintype_need_clk_in p = needs_input_clock p"
  by (simp add: io_pintype_need_clk_in_def needs_input_clock_def and_one_eq mod_2_eq_odd bit_0)

lemma need_clk_out_bits: "io_pintype_need_clk_out p = needs_output_clock p"
  unfolding io_pintype_need_clk_out_def needs_output_clock_def mask_0x30 mask_0x3c mask_0x0c
  by blast

lemma need_clk_en_bits: "io_pintype_need_clk_en p = needs_clock_enable p"
  by (simp add: io_pintype_need_clk_en_def needs_clock_enable_def need_clk_in_bits
      need_clk_out_bits)

lemma upt_six: "[0..<6] = [0, 1, 2, 3, 4, 5]"
  by (simp add: upt_rec)

lemma xor_one_slots: "(0::nat) XOR 1 = 1" "(1::nat) XOR 1 = 0" "(2::nat) XOR 1 = 3" "(3::nat) XOR 1 = 2" "(4::nat) XOR 1 = 5" "(5::nat) XOR 1 = 4"
  by simp_all

lemma shared_net_conflict_eq:
  "shared_net_conflict (io_use c d) (io_nets c d) = pair_conflict c d"
  unfolding shared_net_conflict_def upt_six io_use_def io_nets_def pair_conflict_def
    side_conflict_def class_conflict_def need_clk_in_bits need_clk_out_bits need_clk_en_bits
  by (simp add: xor_one_slots) blast

section \<open>The example configurations, evaluated\<close>

lemma lc_cell_simps:
  "type (lc_cell dff n cn ck s) = id_ICESTORM_LC"
  "lcInfo (lc_cell dff n cn ck s) =
     \<lparr>dffEnable = dff, negClk = False, inputCount = n, clk = ck, cen = cn, sr = s\<rparr>"
  by (simp_all add: lc_cell_def)

lemma fabric_simps:
  "nets (fabric ty bound pins pkg) = nets_ex"
  "getBelType (fabric ty bound pins pkg) = ty"
  "getBelLocation (fabric ty bound pins pkg) b = \<lparr>x = 0, y = 0, z = b\<rparr>"
  "getBelsByTile (fabric ty bound pins pkg) tx tyc = [0, 1, 2, 3, 4, 5, 6, 7]"
  "getBoundBelCell (fabric ty bound pins pkg) = bound"
  "getBelByLocation (fabric ty bound pins pkg) l = z l"
  "getBelPinWire (fabric ty bound pins pkg) b k = b"
  "getWireBelPins (fabric ty bound pins pkg) w = pins"
  "getBelPackagePin (fabric ty bound pins pkg) b = pkg"
  "getBelName (fabric ty bound pins pkg) b = (if b = 0 then ''io0'' else ''io1'')"
  "getDrivenGlobalNetwork (fabric ty bound pins pkg) b = b"
  by (simp_all add: fabric_def)






section \<open>The budget of the tile check\<close>

text \<open>
  Outside the range of the counter the sum wraps: two cells without flip-flop with
  \<open>2147483647\<close> and \<open>1\<close> inputs leave a negative count, and the check accepts.
\<close>

lemma counter_wraps:
  "logicCellsCompatible logic_tile
     [lc_cell False 2147483647 None None None, lc_cell False 1 None None None] = Inr True"
  by (simp add: logicCellsCompatible_def lc_cell_simps)





section \<open>Order of the cells\<close>

text \<open>
  Claim C10. The tile check gives the same result on every reordering of a collection
  of logic cells: a mismatch between two flip-flop cells is found whichever of them
  comes first, and without one the recorded cell contributes the same count whichever
  it is.
\<close>

theorem logicCellsCompatible_permutation:
  assumes lx: "all_logic xs" and p: "mset xs = mset ys"
  shows "logicCellsCompatible ar xs = logicCellsCompatible ar ys"
proof -
  have "set xs = set ys"
    using p by (rule mset_eq_setD)
  then have ly: "all_logic ys"
    using lx by (simp add: all_logic_def list_all_iff)
  have st: "set (dff_cells xs) = set (dff_cells ys)"
    using p by (rule dff_cells_set)
  have m: "ctrl_mismatch xs = ctrl_mismatch ys"
    unfolding ctrl_mismatch_iff st ..
  have ex: "logicCellsCompatible ar xs =
              Inr (\<not> ctrl_mismatch xs \<and> locals_total ar xs \<le> 32)"
    using lx by (rule logicCellsCompatible_eq)
  have ey: "logicCellsCompatible ar ys =
              Inr (\<not> ctrl_mismatch ys \<and> locals_total ar ys \<le> 32)"
    using ly by (rule logicCellsCompatible_eq)
  show ?thesis
  proof (cases "ctrl_mismatch xs")
    case True
    then show ?thesis
      using m by (simp add: ex ey)
  next
    case False
    with p have "budget ar xs = budget ar ys"
      by (rule budget_mset)
    then have "locals_total ar xs = locals_total ar ys"
      by (simp add: locals_total_def)
    then show ?thesis
      using m by (simp add: ex ey)
  qed
qed

theorem logicCellsCompatible_permutation_witness:
  "all_logic [lc_cell True 4 None (Some 1) None, lc_cell False 2 None None None]
   \<and> mset [lc_cell True 4 None (Some 1) None, lc_cell False 2 None None None]
       = mset [lc_cell False 2 None None None, lc_cell True 4 None (Some 1) None]
   \<and> logicCellsCompatible logic_tile
         [lc_cell True 4 None (Some 1) None, lc_cell False 2 None None None]
       = logicCellsCompatible logic_tile
         [lc_cell False 2 None None None, lc_cell True 4 None (Some 1) None]"
proof -
  have a: "all_logic [lc_cell True 4 None (Some 1) None, lc_cell False 2 None None None]"
    by (simp add: all_logic_def lc_cell_simps)
  have p: "mset [lc_cell True 4 None (Some 1) None, lc_cell False 2 None None None]
       = mset [lc_cell False 2 None None None, lc_cell True 4 None (Some 1) None]"
    by simp
  show ?thesis
    using a p logicCellsCompatible_permutation [OF a p, of logic_tile] by simp
qed

section \<open>Two flip-flop cells in one collection\<close>






section \<open>Assertions\<close>

lemma isValidBelForCell_assert:
  "type cell = id_ICESTORM_LC \<Longrightarrow> getBelType ar b \<noteq> id_ICESTORM_LC \<Longrightarrow>
   isValidBelForCell ar cell b = Inl AssertionFailure"
  by (simp add: isValidBelForCell_def)

lemma scoreBelForCell_assert:
  "type cell = id_ICESTORM_LC \<Longrightarrow> getBelType ar b \<noteq> id_ICESTORM_LC \<Longrightarrow>
   scoreBelForCell ar cell b = Inl AssertionFailure"
  by (simp add: scoreBelForCell_def)

text \<open>
  Two flip-flop cells on different clocks followed by an IO cell: the check returns
  false at the second cell and never looks at the type of the third.
\<close>

theorem early_return_counterexample:
  "type io_b \<noteq> id_ICESTORM_LC
   \<and> logicCellsCompatible logic_tile
        [lc_cell True 1 None (Some 1) None, lc_cell True 1 None (Some 2) None, io_b] = Inr False"
  by (simp add: logicCellsCompatible_def lc_cell_simps io_b_def io_cell_def)

text \<open>
  Claim C9, as the code has it. The tile check aborts on the first cell that is not a
  logic cell, unless the flip-flop cells before it already disagree on their control
  signals: then it has returned false. For a logic cell against a bel that is not a
  logic site, \<open>isValidBelForCell\<close> and \<open>scoreBelForCell\<close> abort.
\<close>

theorem type_mismatch_aborts:
  "(all_logic pre \<and> type c \<noteq> id_ICESTORM_LC \<longrightarrow>
      logicCellsCompatible ar (pre @ c # post) =
        (if ctrl_mismatch pre then Inr False else Inl AssertionFailure))
   \<and> (type cell = id_ICESTORM_LC \<and> getBelType ar b \<noteq> id_ICESTORM_LC \<longrightarrow>
        isValidBelForCell ar cell b = Inl AssertionFailure
        \<and> scoreBelForCell ar cell b = Inl AssertionFailure)"
  by (simp add: logicCellsCompatible_assert isValidBelForCell_assert scoreBelForCell_assert)

theorem type_mismatch_aborts_witness:
  "all_logic [lc_cell True 1 None (Some 1) None] \<and> type io_b \<noteq> id_ICESTORM_LC
   \<and> \<not> ctrl_mismatch [lc_cell True 1 None (Some 1) None]
   \<and> logicCellsCompatible io_tile [lc_cell True 1 None (Some 1) None, io_b, io_a]
       = Inl AssertionFailure
   \<and> type (lc_cell True 1 None (Some 1) None) = id_ICESTORM_LC
   \<and> getBelType io_tile 0 \<noteq> id_ICESTORM_LC
   \<and> isValidBelForCell io_tile (lc_cell True 1 None (Some 1) None) 0 = Inl AssertionFailure
   \<and> scoreBelForCell io_tile (lc_cell True 1 None (Some 1) None) 0 = Inl AssertionFailure"
  using type_mismatch_aborts [of "[lc_cell True 1 None (Some 1) None]" io_b io_tile "[io_a]"
      "lc_cell True 1 None (Some 1) None" 0]
  by (simp add: all_logic_def ctrl_mismatch_def dff_cells_def lc_cell_simps io_b_def io_cell_def
      io_tile_def fabric_simps)

section \<open>Validity of a bel without a cell\<close>

lemma isBelLocationValid_logic:
  assumes "getBelType ar b = id_ICESTORM_LC"
  shows "isBelLocationValid ar b =
           (if length (tile_cells ar b) \<le> 8 then logicCellsCompatible ar (tile_cells ar b)
            else Inl ArrayOverflow)"
proof -
  have "List.map_filter (\<lambda>bo. if False then None else getBoundBelCell ar bo) (tile_bels ar b)
        = tile_cells ar b"
    by (simp add: tile_cells_def)
  then have "gather_cells ar (\<lambda>bel_other. False) (tile_bels ar b) [] =
               (if length (tile_cells ar b) \<le> 8 then Inr (tile_cells ar b)
                else Inl ArrayOverflow)"
    using gather_cells_eq [of "[]" ar "\<lambda>bel_other. False" "tile_bels ar b"]
    by simp
  then show ?thesis
    using assms by (simp add: isBelLocationValid_def tile_bels_def Let_def)
qed

lemma clash_tile_cells:
  "tile_cells clash_tile b =
     [lc_cell True 1 None (Some 1) None, lc_cell True 1 None (Some 2) None]"
  by (simp add: tile_cells_def tile_bels_def clash_tile_def fabric_simps map_filter_simps)

lemma clash_tile_check:
  "logicCellsCompatible clash_tile
     [lc_cell True 1 None (Some 1) None, lc_cell True 1 None (Some 2) None] = Inr False"
  by (simp add: logicCellsCompatible_def lc_cell_simps)

lemma clash_tile_simps:
  "getBelType clash_tile b = id_ICESTORM_LC"
  "getBoundBelCell clash_tile 0 = None"
  "getBoundBelCell clash_tile 1 = Some (lc_cell True 1 None (Some 1) None)"
  by (simp_all add: clash_tile_def fabric_simps)

text \<open>
  A free logic bel in a tile where two other bels hold flip-flop cells on different
  clocks: the bel has no cell, and \<open>isBelLocationValid\<close> returns false.
\<close>

theorem unbound_logic_bel_counterexample:
  "getBoundBelCell clash_tile 0 = None \<and> isBelLocationValid clash_tile 0 = Inr False"
proof -
  have "isBelLocationValid clash_tile 0 =
          (if length (tile_cells clash_tile 0) \<le> 8
           then logicCellsCompatible clash_tile (tile_cells clash_tile 0)
           else Inl ArrayOverflow)"
    by (rule isBelLocationValid_logic) (rule clash_tile_simps)
  moreover have "length (tile_cells clash_tile 0) \<le> 8"
    by (simp add: clash_tile_cells)
  ultimately have "isBelLocationValid clash_tile 0 =
                     logicCellsCompatible clash_tile (tile_cells clash_tile 0)"
    by (simp only: if_True)
  then have "isBelLocationValid clash_tile 0 = Inr False"
    by (simp only: clash_tile_cells clash_tile_check)
  then show ?thesis
    by (simp add: clash_tile_simps)
qed

text \<open>
  Claim C1, as the code has it. For a bel that is not a logic site and has no bound
  cell, \<open>isBelLocationValid\<close> returns true. For a logic site, whether it holds a cell
  or not, the result is the tile check of the cells bound in the tile of the bel, the
  cell of the bel among them; more than eight bound cells overrun the array that
  collects them.
\<close>

theorem isBelLocationValid_unbound:
  "(getBelType ar b \<noteq> id_ICESTORM_LC \<and> getBoundBelCell ar b = None \<longrightarrow>
      isBelLocationValid ar b = Inr True)
   \<and> (getBelType ar b = id_ICESTORM_LC \<longrightarrow>
        isBelLocationValid ar b =
          (if length (tile_cells ar b) \<le> 8 then logicCellsCompatible ar (tile_cells ar b)
           else Inl ArrayOverflow))"
proof -
  have "isBelLocationValid ar b = Inr True"
    if "getBelType ar b \<noteq> id_ICESTORM_LC" "getBoundBelCell ar b = None"
    using that by (simp add: isBelLocationValid_def)
  then show ?thesis
    using isBelLocationValid_logic [of ar b] by blast
qed

theorem isBelLocationValid_unbound_witness:
  "getBelType io_tile 0 \<noteq> id_ICESTORM_LC \<and> getBoundBelCell io_tile 0 = None
   \<and> isBelLocationValid io_tile 0 = Inr True
   \<and> getBelType clash_tile 0 = id_ICESTORM_LC \<and> getBoundBelCell clash_tile 0 = None
   \<and> isBelLocationValid clash_tile 0 = logicCellsCompatible clash_tile (tile_cells clash_tile 0)
   \<and> getBelType clash_tile 1 = id_ICESTORM_LC
   \<and> getBoundBelCell clash_tile 1 = Some (lc_cell True 1 None (Some 1) None)
   \<and> lc_cell True 1 None (Some 1) None \<in> set (tile_cells clash_tile 1)
   \<and> isBelLocationValid clash_tile 1 = logicCellsCompatible clash_tile (tile_cells clash_tile 1)"
proof -
  have i: "getBoundBelCell io_tile 0 = None" "getBelType io_tile 0 = id_SB_IO"
    by (simp_all add: io_tile_def fabric_simps)
  have l: "length (tile_cells clash_tile 0) \<le> 8" "length (tile_cells clash_tile 1) \<le> 8"
    by (simp_all add: clash_tile_cells)
  have m: "lc_cell True 1 None (Some 1) None \<in> set (tile_cells clash_tile 1)"
    by (simp add: clash_tile_cells)
  show ?thesis
    using isBelLocationValid_unbound [of io_tile 0] isBelLocationValid_unbound [of clash_tile 0]
      isBelLocationValid_unbound [of clash_tile 1] l m
    by (simp add: i clash_tile_simps)
qed

section \<open>Global buffers\<close>

text \<open>
  The remainder of \<^verbatim>\<open>glb_id % 2\<close> has the sign of \<^verbatim>\<open>glb_id\<close>: it is \<open>1\<close> only for an
  odd index that is not negative.
\<close>

lemma smod_2_eq_0: "(k smod 2 = 0) = even k" for k :: int
  by (auto simp: smod_int_alt_def sgn_if)

lemma smod_2_eq_1: "(k smod 2 = 1) = (0 \<le> k \<and> odd k)" for k :: int
  by (auto simp: smod_int_alt_def sgn_if) presburger+

lemma gb_cell_simps:
  "type (gb_cell pad n) = id_SB_GB"
  "forPadIn (gbInfo (gb_cell pad n)) = pad"
  "ports (gb_cell pad n) id_GLOBAL_BUFFER_OUTPUT = Some \<lparr>net = n\<rparr>"
  by (simp_all add: gb_cell_def)

lemma gb_tile_nets: "nets gb_tile = nets_ex" "getDrivenGlobalNetwork gb_tile b = b"
  by (simp_all add: gb_tile_def fabric_simps)

lemma isValidBelForCell_gb:
  "type cell = id_SB_GB \<Longrightarrow> isValidBelForCell ar cell b = gb_check ar cell b"
  by (simp add: isValidBelForCell_def)

text \<open>
  A buffer cell for a pad input whose output net is both a reset and an enable: the
  test of \<^verbatim>\<open>forPadIn\<close> comes first, and the cell is accepted.
\<close>

theorem pad_input_buffer_counterexample:
  "type (gb_cell True (Some 6)) = id_SB_GB
   \<and> port_net (gb_cell True (Some 6)) id_GLOBAL_BUFFER_OUTPUT = Some 6
   \<and> is_reset (nets gb_tile 6) \<and> is_enable (nets gb_tile 6)
   \<and> isValidBelForCell gb_tile (gb_cell True (Some 6)) 0 = Inr True"
  by (simp add: isValidBelForCell_gb gb_check_def gb_cell_simps port_net_def gb_tile_nets
      nets_ex_def)

text \<open>
  Claim C2, as the code has it. A global buffer cell that is not for a pad input and
  whose output net is both reset-classified and enable-classified is rejected on every
  bel.
\<close>

theorem reset_enable_net_rejected:
  assumes "type cell = id_SB_GB" and "\<not> forPadIn (gbInfo cell)"
    and "ports cell id_GLOBAL_BUFFER_OUTPUT = Some port" and "net port = Some n"
    and "is_reset (nets ar n)" and "is_enable (nets ar n)"
  shows "isValidBelForCell ar cell b = Inr False"
  using assms by (simp add: isValidBelForCell_gb gb_check_def)

theorem reset_enable_net_rejected_witness:
  "type (gb_cell False (Some 6)) = id_SB_GB \<and> \<not> forPadIn (gbInfo (gb_cell False (Some 6)))
   \<and> ports (gb_cell False (Some 6)) id_GLOBAL_BUFFER_OUTPUT = Some \<lparr>net = Some 6\<rparr>
   \<and> is_reset (nets gb_tile 6) \<and> is_enable (nets gb_tile 6)
   \<and> isValidBelForCell gb_tile (gb_cell False (Some 6)) 0 = Inr False"
  using reset_enable_net_rejected [of "gb_cell False (Some 6)" "\<lparr>net = Some 6\<rparr>" 6 gb_tile 0]
  by (simp add: gb_cell_simps gb_tile_nets nets_ex_def)

text \<open>
  A buffer cell for a pad input whose output net is a reset only, on the bel that
  drives global network \<open>1\<close>: accepted on an odd network.
\<close>

theorem pad_input_parity_counterexample:
  "type (gb_cell True (Some 4)) = id_SB_GB
   \<and> port_net (gb_cell True (Some 4)) id_GLOBAL_BUFFER_OUTPUT = Some 4
   \<and> is_reset (nets gb_tile 4) \<and> \<not> is_enable (nets gb_tile 4)
   \<and> odd (getDrivenGlobalNetwork gb_tile 1)
   \<and> isValidBelForCell gb_tile (gb_cell True (Some 4)) 1 = Inr True"
  by (simp add: isValidBelForCell_gb gb_check_def gb_cell_simps port_net_def gb_tile_nets
      nets_ex_def)

text \<open>
  Claim C7, as the code has it. For a global buffer cell that is not for a pad input
  and has an output net: when the net is a reset and not an enable, the cell is
  accepted exactly on the even global networks; when it is an enable and not a reset,
  exactly on the odd ones (of index at least \<open>0\<close>); when it is neither, on every bel.
\<close>

theorem global_network_parity:
  assumes "type cell = id_SB_GB" and "\<not> forPadIn (gbInfo cell)"
    and "ports cell id_GLOBAL_BUFFER_OUTPUT = Some port" and "net port = Some n"
  shows "(is_reset (nets ar n) \<and> \<not> is_enable (nets ar n) \<longrightarrow>
            isValidBelForCell ar cell b = Inr (even (getDrivenGlobalNetwork ar b)))
       \<and> (is_enable (nets ar n) \<and> \<not> is_reset (nets ar n) \<longrightarrow>
            isValidBelForCell ar cell b
              = Inr (0 \<le> getDrivenGlobalNetwork ar b \<and> odd (getDrivenGlobalNetwork ar b)))
       \<and> (\<not> is_reset (nets ar n) \<and> \<not> is_enable (nets ar n) \<longrightarrow>
            isValidBelForCell ar cell b = Inr True)"
  using assms by (simp add: isValidBelForCell_gb gb_check_def smod_2_eq_0 smod_2_eq_1 Let_def)

theorem global_network_parity_witness:
  "isValidBelForCell gb_tile (gb_cell False (Some 4)) 2 = Inr True
   \<and> isValidBelForCell gb_tile (gb_cell False (Some 4)) 3 = Inr False
   \<and> isValidBelForCell gb_tile (gb_cell False (Some 5)) 3 = Inr True
   \<and> isValidBelForCell gb_tile (gb_cell False (Some 5)) 2 = Inr False
   \<and> isValidBelForCell gb_tile (gb_cell False (Some 1)) 2 = Inr True
   \<and> isValidBelForCell gb_tile (gb_cell False (Some 1)) 3 = Inr True"
  using global_network_parity [of "gb_cell False (Some 4)" "\<lparr>net = Some 4\<rparr>" 4 gb_tile 2]
    global_network_parity [of "gb_cell False (Some 4)" "\<lparr>net = Some 4\<rparr>" 4 gb_tile 3]
    global_network_parity [of "gb_cell False (Some 5)" "\<lparr>net = Some 5\<rparr>" 5 gb_tile 3]
    global_network_parity [of "gb_cell False (Some 5)" "\<lparr>net = Some 5\<rparr>" 5 gb_tile 2]
    global_network_parity [of "gb_cell False (Some 1)" "\<lparr>net = Some 1\<rparr>" 1 gb_tile 2]
    global_network_parity [of "gb_cell False (Some 1)" "\<lparr>net = Some 1\<rparr>" 1 gb_tile 3]
  by (simp add: gb_cell_simps gb_tile_nets nets_ex_def)

section \<open>The desirability score\<close>

lemma scoreBelForCell_dff:
  "type cell = id_ICESTORM_LC \<Longrightarrow> getBelType ar b = id_ICESTORM_LC \<Longrightarrow>
   dffEnable (lcInfo cell) \<Longrightarrow>
   scoreBelForCell ar cell b = Inr (int_of_size_t (size_t_sub 8 (int (occupied_others ar b))))"
  by (simp add: scoreBelForCell_def count_others_eq occupied_others_def tile_bels_def Let_def)

lemma clash_tile_others:
  "occupied_others clash_tile 0 = 2" "occupied_others clash_tile 1 = 1"
  by (simp_all add: occupied_others_def tile_bels_def clash_tile_def fabric_simps)

text \<open>
  A logic cell without flip-flop against an IO bel: the assertion on the type of the
  bel comes before the test of the flip-flop, and the call aborts instead of
  returning \<open>8\<close>.
\<close>

theorem score_on_io_bel_counterexample:
  "type (lc_cell False 3 None None None) = id_ICESTORM_LC
   \<and> \<not> dffEnable (lcInfo (lc_cell False 3 None None None))
   \<and> getBelType io_tile 0 = id_SB_IO
   \<and> scoreBelForCell io_tile (lc_cell False 3 None None None) 0 = Inl AssertionFailure"
  by (simp add: scoreBelForCell_def lc_cell_simps io_tile_def fabric_simps)

text \<open>
  Claim C8, as the code has it. \<open>scoreBelForCell\<close> returns \<open>0\<close> for a cell that is not
  a logic cell. For a logic cell at a logic bel it returns \<open>8\<close> when the cell uses no
  flip-flop, whatever the tile holds; and when the cell uses a flip-flop and fewer
  than \<open>2 ^ 31\<close> other bels of the tile have a cell bound, \<open>8\<close> minus the number of
  those bels: one less for each occupied sibling.
\<close>

theorem scoreBelForCell_value:
  "(type cell \<noteq> id_ICESTORM_LC \<longrightarrow> scoreBelForCell ar cell b = Inr 0)
   \<and> (type cell = id_ICESTORM_LC \<and> getBelType ar b = id_ICESTORM_LC
        \<and> \<not> dffEnable (lcInfo cell) \<longrightarrow> scoreBelForCell ar cell b = Inr 8)
   \<and> (type cell = id_ICESTORM_LC \<and> getBelType ar b = id_ICESTORM_LC
        \<and> dffEnable (lcInfo cell) \<and> occupied_others ar b < 2 ^ 31 \<longrightarrow>
        scoreBelForCell ar cell b = Inr (8 - int (occupied_others ar b)))"
proof -
  have "int_of_size_t (size_t_sub 8 (int (occupied_others ar b))) = 8 - int (occupied_others ar b)"
    if "occupied_others ar b < 2 ^ 31"
  proof (rule int_of_size_t_sub)
    show "0 \<le> int (occupied_others ar b)" by simp
    show "int (occupied_others ar b) < 2 ^ 31" using that by simp
  qed
  then show ?thesis
    by (simp add: scoreBelForCell_dff) (simp add: scoreBelForCell_def)
qed

theorem scoreBelForCell_value_witness:
  "scoreBelForCell clash_tile io_b 0 = Inr 0
   \<and> scoreBelForCell clash_tile (lc_cell False 3 None None None) 0 = Inr 8
   \<and> occupied_others clash_tile 0 = 2
   \<and> scoreBelForCell clash_tile (lc_cell True 3 None (Some 1) None) 0 = Inr 6
   \<and> occupied_others clash_tile 1 = 1
   \<and> scoreBelForCell clash_tile (lc_cell True 3 None (Some 1) None) 1 = Inr 7"
proof -
  have t: "getBelType clash_tile 0 = id_ICESTORM_LC" "getBelType clash_tile 1 = id_ICESTORM_LC"
    by (simp_all add: clash_tile_def fabric_simps)
  have i: "type io_b \<noteq> id_ICESTORM_LC"
    by (simp add: io_b_def io_cell_def)
  show ?thesis
    using scoreBelForCell_value [of io_b clash_tile 0]
      scoreBelForCell_value [of "lc_cell False 3 None None None" clash_tile 0]
      scoreBelForCell_value [of "lc_cell True 3 None (Some 1) None" clash_tile 0]
      scoreBelForCell_value [of "lc_cell True 3 None (Some 1) None" clash_tile 1]
    by (simp add: t i lc_cell_simps clash_tile_others)
qed

section \<open>IO sites\<close>

lemma io_pairing_lvds:
  "lvds (ioInfo cell) \<Longrightarrow>
   io_pairing ar cell b =
     (z (getBelLocation ar b) = 0 \<and> getBoundBelCell ar (comp_bel ar b) = None
      \<and> getBelPackagePin ar b \<noteq> [])"
  by (simp add: io_pairing_def comp_bel_def Let_def split: option.splits)

lemma io_pairing_pair:
  "\<not> lvds (ioInfo cell) \<Longrightarrow> getBoundBelCell ar (comp_bel ar b) = Some compCell \<Longrightarrow>
   \<not> lvds (ioInfo compCell) \<Longrightarrow>
   io_pairing ar cell b = (\<not> pair_conflict cell compCell \<and> getBelPackagePin ar b \<noteq> [])"
  by (simp add: io_pairing_def comp_bel_def Let_def shared_net_conflict_eq)

lemma isValidBelForCell_io:
  "type cell = id_SB_IO \<Longrightarrow>
   isValidBelForCell ar cell b =
     (case pll_check ar cell b of Some r \<Rightarrow> Inr r | None \<Rightarrow> Inr (io_pairing ar cell b))"
  by (simp add: isValidBelForCell_def)

lemma io_cell_simps:
  "type (io_cell lv pt ps) = id_SB_IO"
  "ports (io_cell lv pt ps) = ps"
  "ioInfo (io_cell lv pt ps) = \<lparr>lvds = lv, pintype = pt\<rparr>"
  by (simp_all add: io_cell_def)

lemma io_a_simps:
  "type io_a = id_SB_IO" "lvds (ioInfo io_a) = False" "pintype (ioInfo io_a) = 0x31"
  "port_net io_a id_D_IN_0 = Some 7" "port_net io_a id_OUTPUT_CLK = Some 1"
  "port_net io_a id_INPUT_CLK = None" "port_net io_a id_CLOCK_ENABLE = None"
  by (simp_all add: io_a_def io_cell_simps port_net_def)

lemma io_b_simps:
  "type io_b = id_SB_IO" "lvds (ioInfo io_b) = False" "pintype (ioInfo io_b) = 0x31"
  "port_net io_b id_OUTPUT_CLK = Some 2"
  "port_net io_b id_INPUT_CLK = None" "port_net io_b id_CLOCK_ENABLE = None"
  by (simp_all add: io_b_def io_cell_simps port_net_def)

lemma io_c_simps:
  "type io_c = id_SB_IO" "lvds (ioInfo io_c) = False" "pintype (ioInfo io_c) = 0x31"
  "port_net io_c id_OUTPUT_CLK = Some 1"
  "port_net io_c id_INPUT_CLK = None" "port_net io_c id_CLOCK_ENABLE = None"
  by (simp_all add: io_c_def io_cell_simps port_net_def)

lemma io_lvds_simps:
  "type io_lvds = id_SB_IO" "lvds (ioInfo io_lvds) = True"
  "port_net io_lvds id_D_IN_0 = Some 7"
  by (simp_all add: io_lvds_def io_cell_simps port_net_def)

lemma needs_0x31: "needs_output_clock 0x31" "\<not> needs_input_clock 0x31"
  by (simp_all add: need_clk_out_bits [symmetric] need_clk_in_bits [symmetric]
      io_pintype_need_clk_out_def io_pintype_need_clk_in_def)

lemma pll_check_none: "pll_check (fabric ty bound [] pkg) cell b = None"
  by (simp add: pll_check_def fabric_simps)

lemma pll_check_pad:
  "bound 9 = Some (pll_cell pad_bel) \<Longrightarrow> port_net cell id_D_IN_0 = Some n \<Longrightarrow>
   pll_check (fabric ty bound [\<lparr>bel = 9, pin = id_PLLOUT_A\<rparr>] pkg) cell b
     = Some (pad_bel = (if b = 0 then ''io0'' else ''io1''))"
  by (simp add: pll_check_def fabric_simps attr_str_def pll_cell_def)

lemma io_pll_tile_simps:
  "getBoundBelCell (io_pll_tile pad_bel) 0 = Some io_a"
  "getBoundBelCell (io_pll_tile pad_bel) 1 = Some io_b"
  "comp_bel (io_pll_tile pad_bel) 0 = 1"
  "z (getBelLocation (io_pll_tile pad_bel) 1) = 1"
  "pll_check (io_pll_tile ''io0'') io_a 0 = Some True"
  "pll_check (io_pll_tile ''io1'') io_lvds 1 = Some True"
  by (simp_all add: io_pll_tile_def fabric_simps comp_bel_def pll_check_pad io_a_simps
      io_lvds_simps)

lemma io_pair_tile_simps:
  "getBoundBelCell io_pair_tile 0 = Some io_a"
  "getBoundBelCell io_pair_tile 1 = Some io_b"
  "comp_bel io_pair_tile 0 = 1"
  "pll_check io_pair_tile cell b = None"
  "getBelPackagePin io_pair_tile b = ''A1''"
  by (simp_all add: io_pair_tile_def fabric_simps comp_bel_def pll_check_none)

lemma io_same_tile_simps:
  "getBoundBelCell io_same_tile 0 = Some io_a"
  "getBoundBelCell io_same_tile 1 = Some io_c"
  "comp_bel io_same_tile 0 = 1"
  "pll_check io_same_tile cell b = None"
  "getBelPackagePin io_same_tile b = ''A1''"
  by (simp_all add: io_same_tile_def fabric_simps comp_bel_def pll_check_none)

lemma unbonded_tile_simps:
  "getBoundBelCell unbonded_tile b = None"
  "z (getBelLocation unbonded_tile b) = b"
  "pll_check unbonded_tile cell b = None"
  "getBelPackagePin unbonded_tile b = []"
  by (simp_all add: unbonded_tile_def fabric_simps pll_check_none)

lemma io_tile_simps:
  "getBoundBelCell io_tile b = None"
  "z (getBelLocation io_tile b) = b"
  "pll_check io_tile cell b = None"
  "getBelPackagePin io_tile b = ''A1''"
  by (simp_all add: io_tile_def fabric_simps pll_check_none)

text \<open>
  Two cells on one site pair that both need an output clock and have different nets
  there, where the first is the pad input of the PLL that shares its input wire: the
  pin loop returns true before the pair is looked at.
\<close>

theorem pll_pad_input_counterexample:
  "getBoundBelCell (io_pll_tile ''io0'') 0 = Some io_a
   \<and> getBoundBelCell (io_pll_tile ''io0'') (comp_bel (io_pll_tile ''io0'') 0) = Some io_b
   \<and> \<not> lvds (ioInfo io_a) \<and> \<not> lvds (ioInfo io_b)
   \<and> needs_output_clock (pintype (ioInfo io_a))
   \<and> needs_output_clock (pintype (ioInfo io_b))
   \<and> port_net io_a id_OUTPUT_CLK \<noteq> port_net io_b id_OUTPUT_CLK
   \<and> isValidBelForCell (io_pll_tile ''io0'') io_a 0 = Inr True"
  by (simp add: io_pll_tile_simps io_a_simps io_b_simps needs_0x31 isValidBelForCell_io)

text \<open>
  Claim C5, as the code has it. Let \<open>cell\<close> and the cell bound to the paired site both
  be non-LVDS IO cells, with the need-classes computed from the pin type as the bit
  formulas say. Unless the pin loop accepts \<open>cell\<close> as the pad input of a PLL,
  \<open>isValidBelForCell\<close> rejects when, for a class one of the two needs, the two net
  slots hold different nets and the other side needs the class or has a net there; in
  particular when both need an output clock on different nets. When the pin loop
  decides nothing, the cell is accepted exactly when there is no such conflict and the
  bel has a package pin.
\<close>

theorem paired_io_shared_nets:
  assumes "type cell = id_SB_IO" and "\<not> lvds (ioInfo cell)"
    and "getBoundBelCell ar (comp_bel ar b) = Some compCell" and "\<not> lvds (ioInfo compCell)"
  shows "(pll_check ar cell b \<noteq> Some True \<and> pair_conflict cell compCell \<longrightarrow>
            isValidBelForCell ar cell b = Inr False)
       \<and> (pll_check ar cell b \<noteq> Some True
           \<and> needs_output_clock (pintype (ioInfo cell))
           \<and> needs_output_clock (pintype (ioInfo compCell))
           \<and> port_net cell id_OUTPUT_CLK \<noteq> port_net compCell id_OUTPUT_CLK \<longrightarrow>
            isValidBelForCell ar cell b = Inr False)
       \<and> (pll_check ar cell b = None \<longrightarrow>
            isValidBelForCell ar cell b
              = Inr (\<not> pair_conflict cell compCell \<and> getBelPackagePin ar b \<noteq> []))"
proof -
  have p: "io_pairing ar cell b = (\<not> pair_conflict cell compCell \<and> getBelPackagePin ar b \<noteq> [])"
    using assms(2-4) by (rule io_pairing_pair)
  have v: "isValidBelForCell ar cell b =
     (case pll_check ar cell b of Some r \<Rightarrow> Inr r | None \<Rightarrow> Inr (io_pairing ar cell b))"
    using assms(1) by (rule isValidBelForCell_io)
  have c: "pair_conflict cell compCell"
    if "needs_output_clock (pintype (ioInfo cell))" "needs_output_clock (pintype (ioInfo compCell))"
      "port_net cell id_OUTPUT_CLK \<noteq> port_net compCell id_OUTPUT_CLK"
    using that by (simp add: pair_conflict_def side_conflict_def class_conflict_def)
  show ?thesis
  proof (cases "pll_check ar cell b")
    case None
    then show ?thesis using c by (auto simp: v p)
  next
    case (Some r)
    then show ?thesis by (cases r) (simp_all add: v)
  qed
qed

theorem paired_io_shared_nets_witness:
  "type io_a = id_SB_IO \<and> \<not> lvds (ioInfo io_a)
   \<and> getBoundBelCell io_pair_tile (comp_bel io_pair_tile 0) = Some io_b
   \<and> \<not> lvds (ioInfo io_b)
   \<and> pll_check io_pair_tile io_a 0 = None
   \<and> needs_output_clock (pintype (ioInfo io_a))
   \<and> needs_output_clock (pintype (ioInfo io_b))
   \<and> port_net io_a id_OUTPUT_CLK \<noteq> port_net io_b id_OUTPUT_CLK
   \<and> isValidBelForCell io_pair_tile io_a 0 = Inr False
   \<and> getBoundBelCell io_same_tile (comp_bel io_same_tile 0) = Some io_c
   \<and> \<not> lvds (ioInfo io_c)
   \<and> pll_check io_same_tile io_a 0 = None
   \<and> needs_output_clock (pintype (ioInfo io_c))
   \<and> port_net io_a id_OUTPUT_CLK = port_net io_c id_OUTPUT_CLK
   \<and> \<not> pair_conflict io_a io_c
   \<and> isValidBelForCell io_same_tile io_a 0 = Inr True"
proof -
  have n: "\<not> pair_conflict io_a io_c"
    by (simp add: pair_conflict_def side_conflict_def class_conflict_def io_a_simps io_c_simps)
  show ?thesis
    using paired_io_shared_nets [of io_a io_pair_tile 0 io_b]
      paired_io_shared_nets [of io_a io_same_tile 0 io_c]
    by (simp add: n io_pair_tile_simps io_same_tile_simps io_a_simps io_b_simps io_c_simps
        needs_0x31)
qed

text \<open>
  An LVDS cell at sub-index \<open>0\<close> with a free paired site is rejected when the bel has
  no package pin; and an LVDS cell at sub-index \<open>1\<close> is accepted when it is the pad
  input of the PLL sharing its input wire.
\<close>

theorem lvds_pairing_counterexample:
  "lvds (ioInfo io_lvds)
   \<and> z (getBelLocation unbonded_tile 0) = 0
   \<and> getBoundBelCell unbonded_tile (comp_bel unbonded_tile 0) = None
   \<and> isValidBelForCell unbonded_tile io_lvds 0 = Inr False
   \<and> z (getBelLocation (io_pll_tile ''io1'') 1) \<noteq> 0
   \<and> isValidBelForCell (io_pll_tile ''io1'') io_lvds 1 = Inr True"
  by (simp add: io_lvds_simps unbonded_tile_simps io_pll_tile_simps isValidBelForCell_io
      io_pairing_lvds)

text \<open>
  Claim C6, as the code has it. For an LVDS IO cell: unless the pin loop accepts it as
  the pad input of a PLL, \<open>isValidBelForCell\<close> rejects at a sub-index other than \<open>0\<close>;
  and when the pin loop decides nothing, it rejects at sub-index \<open>0\<close> exactly when the
  paired site is occupied or the bel has no package pin.
\<close>

theorem lvds_pairing:
  assumes "type cell = id_SB_IO" and "lvds (ioInfo cell)"
  shows "(pll_check ar cell b \<noteq> Some True \<and> z (getBelLocation ar b) \<noteq> 0 \<longrightarrow>
            isValidBelForCell ar cell b = Inr False)
       \<and> (pll_check ar cell b = None \<longrightarrow>
            isValidBelForCell ar cell b
              = Inr (z (getBelLocation ar b) = 0
                     \<and> getBoundBelCell ar (comp_bel ar b) = None
                     \<and> getBelPackagePin ar b \<noteq> []))"
proof -
  have p: "io_pairing ar cell b =
     (z (getBelLocation ar b) = 0 \<and> getBoundBelCell ar (comp_bel ar b) = None
      \<and> getBelPackagePin ar b \<noteq> [])"
    using assms(2) by (rule io_pairing_lvds)
  have v: "isValidBelForCell ar cell b =
     (case pll_check ar cell b of Some r \<Rightarrow> Inr r | None \<Rightarrow> Inr (io_pairing ar cell b))"
    using assms(1) by (rule isValidBelForCell_io)
  show ?thesis
  proof (cases "pll_check ar cell b")
    case None
    then show ?thesis by (simp add: v p)
  next
    case (Some r)
    then show ?thesis by (cases r) (simp_all add: v)
  qed
qed

theorem lvds_pairing_witness:
  "type io_lvds = id_SB_IO \<and> lvds (ioInfo io_lvds)
   \<and> pll_check io_tile io_lvds 0 = None \<and> pll_check io_tile io_lvds 1 = None
   \<and> isValidBelForCell io_tile io_lvds 1 = Inr False
   \<and> isValidBelForCell io_tile io_lvds 0 = Inr True
   \<and> pll_check io_pair_tile io_lvds 0 = None
   \<and> getBoundBelCell io_pair_tile (comp_bel io_pair_tile 0) \<noteq> None
   \<and> isValidBelForCell io_pair_tile io_lvds 0 = Inr False"
  using lvds_pairing [of io_lvds io_tile 1] lvds_pairing [of io_lvds io_tile 0]
    lvds_pairing [of io_lvds io_pair_tile 0]
  by (simp add: io_lvds_simps io_tile_simps io_pair_tile_simps)

end
